theory Spec2Isabelle
  imports Main "HOL-Library.Word" "HOL-Library.Signed_Division"
begin

section \<open>Background tasks of gddo-server (src/gddo-server/background.go)\<close>

text \<open>
  The file schedules three periodic tasks (GitHub updates, Crawl, Suppress packages) from
  one loop. Everything the tasks do goes through collaborators that live outside the file:
  the database handle \<open>db\<close>, \<open>crawlDoc\<close>, \<open>gosrc.GetGitHubUpdates\<close>,
  \<open>gddoexp.ShouldSuppressPackages\<close>, the clock and the logger. The embedding takes the
  collaborators as parameters acting on an abstract world \<open>'w\<close> and records every call and
  every log line in a trace, in program order.
\<close>

subsection \<open>Data\<close>

text \<open>
  \<open>time.Duration\<close> is an int64 count of nanoseconds, compared as a signed number.
  \<open>time.Time\<close> is an instant; it is modelled as the number of nanoseconds since the zero
  value \<open>time.Time{}\<close>, on one unbounded time line, so that \<open>t.Add(d)\<close> is
  \<open>t + sint d\<close> and \<open>t.After(u)\<close> is \<open>u < t\<close>. The wall and monotonic readings of a
  Go \<open>Time\<close> are not told apart, and the clock is a collaborator: nothing is assumed
  about two successive readings unless a statement says so.
\<close>

type_synonym Duration = "64 word"
type_synonym Time = int
type_synonym error = string

definition Minute :: Duration where
  "Minute = 60000000000"

definition zeroTime :: Time where
  "zeroTime = 0"

definition Add :: "Time \<Rightarrow> Duration \<Rightarrow> Time" where
  "Add t d = t + sint d"

definition After :: "Time \<Rightarrow> Time \<Rightarrow> bool" where
  "After t u = (u < t)"

text \<open>Go's \<open>/\<close> on int64 truncates towards zero; the quotient is stored in 64 bits.\<close>

definition duration_div :: "Duration \<Rightarrow> Duration \<Rightarrow> Duration" where
  "duration_div a b = word_of_int (sint a sdiv sint b)"

text \<open>The fields of \<open>doc.Package\<close> and \<open>database.Package\<close> that the file reads.\<close>

record doc_Package =
  ImportPath :: string
  ProjectRoot :: string
  Etag :: string

record database_Package =
  Path :: string

record GithubAuth =
  ID :: string
  Secret :: string

text \<open>One element of the channel returned by \<open>gddoexp.ShouldSuppressPackages\<close>.\<close>

record SuppressResponse =
  Package :: database_Package
  Suppress :: bool
  Error :: "error option"

text \<open>\<open>url.Values\<close> is a map from a key to its values; \<open>Get\<close> returns the first or "".\<close>

type_synonym url_Values = "string \<rightharpoonup> string list"

definition Values_Get :: "url_Values \<Rightarrow> string \<Rightarrow> string" where
  "Values_Get values k = (case values k of None \<Rightarrow> [] | Some [] \<Rightarrow> [] | Some (v # _) \<Rightarrow> v)"

subsection \<open>Trace of calls and log lines\<close>

text \<open>One constructor per \<open>log.Printf\<close>/\<open>log.Println\<close> site, with the values it prints.\<close>

datatype log_line =
    LogTask string error
  | LogPopNewCrawl error
  | LogAddBadCrawl string error
  | LogGet error
  | LogTouchLastCrawl string error
  | LogBumpCrawl string
  | LogForceCrawl error
  | LogConnecting error
  | LogAllPackages error
  | LogParseAuth error
  | LogChecking string "error option"
  | LogRetrieving string error
  | LogUpdating string error

text \<open>
  One constructor per collaborator call, with its arguments; calls that return only an
  error, and the clock, record what they returned. \<open>RunTask i\<close> marks the scheduler
  invoking the action of the task at index \<open>i\<close>.
\<close>

datatype event =
    PopNewCrawl
  | CrawlDoc string string "doc_Package option" bool Time
  | AddBadCrawl string "error option"
  | Get string
  | SetNextCrawlEtag string string Time "error option"
  | GetGob string
  | GetGitHubUpdates string
  | BumpCrawl string "error option"
  | PutGob string string "error option"
  | DatabaseNew
  | AllPackages
  | ShouldSuppressPackages "database_Package list" "GithubAuth option"
  | Put "doc_Package option" Time bool "error option"
  | Now Time
  | Sleep Duration
  | RunTask nat
  | Log log_line

subsection \<open>Collaborators\<close>

text \<open>
  Each collaborator takes the world and returns its Go results and the world after the
  call. \<open>maxAge\<close> and \<open>gitHubCredentials\<close> are package-level settings declared outside the
  file. \<open>db_GetGob\<close> receives the current content of the variable it decodes into and
  returns the content afterwards. \<open>url_ParseQuery\<close> is pure.
\<close>

record 'w collaborators =
  db_PopNewCrawl :: "'w \<Rightarrow> (string \<times> bool \<times> error option) \<times> 'w"
  crawlDoc :: "string \<Rightarrow> string \<Rightarrow> doc_Package option \<Rightarrow> bool \<Rightarrow> Time \<Rightarrow> 'w
                 \<Rightarrow> (doc_Package option \<times> error option) \<times> 'w"
  db_AddBadCrawl :: "string \<Rightarrow> 'w \<Rightarrow> error option \<times> 'w"
  db_Get :: "string \<Rightarrow> 'w
                 \<Rightarrow> (doc_Package option \<times> database_Package list \<times> Time \<times> error option) \<times> 'w"
  db_SetNextCrawlEtag :: "string \<Rightarrow> string \<Rightarrow> Time \<Rightarrow> 'w \<Rightarrow> error option \<times> 'w"
  db_GetGob :: "string \<Rightarrow> string \<Rightarrow> 'w \<Rightarrow> (string \<times> error option) \<times> 'w"
  gosrc_GetGitHubUpdates :: "string \<Rightarrow> 'w \<Rightarrow> (string \<times> string list \<times> error option) \<times> 'w"
  db_BumpCrawl :: "string \<Rightarrow> 'w \<Rightarrow> error option \<times> 'w"
  db_PutGob :: "string \<Rightarrow> string \<Rightarrow> 'w \<Rightarrow> error option \<times> 'w"
  database_New :: "'w \<Rightarrow> error option \<times> 'w"
  db_AllPackages :: "'w \<Rightarrow> (database_Package list \<times> error option) \<times> 'w"
  url_ParseQuery :: "string \<Rightarrow> url_Values \<times> error option"
  gddoexp_ShouldSuppressPackages :: "database_Package list \<Rightarrow> GithubAuth option \<Rightarrow> 'w
                 \<Rightarrow> SuppressResponse list \<times> 'w"
  db_Put :: "doc_Package option \<Rightarrow> Time \<Rightarrow> bool \<Rightarrow> 'w \<Rightarrow> error option \<times> 'w"
  time_Now :: "'w \<Rightarrow> Time \<times> 'w"
  time_Sleep :: "Duration \<Rightarrow> 'w \<Rightarrow> 'w"
  maxAge :: Duration
  gitHubCredentials :: string

record 'w state =
  world :: 'w
  trace :: "event list"

definition emit :: "event \<Rightarrow> 'w state \<Rightarrow> 'w state" where
  "emit e s = s\<lparr>trace := trace s @ [e]\<rparr>"

text \<open>Run a collaborator on the world and append the event that describes the call.\<close>

definition call :: "('w \<Rightarrow> 'a \<times> 'w) \<Rightarrow> ('a \<Rightarrow> event) \<Rightarrow> 'w state \<Rightarrow> 'a \<times> 'w state" where
  "call f ev s = (let (r, w) = f (world s) in (r, \<lparr>world = w, trace = trace s @ [ev r]\<rparr>))"

text \<open>The events a run appended to the trace it started from.\<close>

definition events_since :: "'w state \<Rightarrow> 'w state \<Rightarrow> event list" where
  "events_since s s' = drop (length (trace s)) (trace s')"

subsection \<open>doCrawl\<close>

definition doCrawl :: "'w collaborators \<Rightarrow> 'w state \<Rightarrow> error option \<times> 'w state" where
  "doCrawl env s0 =
    (let ((importPath, hasSubdirs, err), s1) = call (db_PopNewCrawl env) (\<lambda>_. PopNewCrawl) s0 in
     case err of
       Some e \<Rightarrow> (None, emit (Log (LogPopNewCrawl e)) s1)
     | None \<Rightarrow>
       if importPath \<noteq> [] then
         (let ((pdoc, err), s2) =
                call (crawlDoc env ''new'' importPath None hasSubdirs zeroTime)
                     (\<lambda>_. CrawlDoc ''new'' importPath None hasSubdirs zeroTime) s1 in
          if pdoc = None \<and> err = None then
            (let (err, s3) = call (db_AddBadCrawl env importPath) (AddBadCrawl importPath) s2 in
             case err of
               Some e \<Rightarrow> (None, emit (Log (LogAddBadCrawl importPath e)) s3)
             | None \<Rightarrow> (None, s3))
          else (None, s2))
       else
         (let ((pdoc, pkgs, nextCrawl, err), s2) = call (db_Get env ''-'') (\<lambda>_. Get ''-'') s1 in
          case err of
            Some e \<Rightarrow> (None, emit (Log (LogGet e)) s2)
          | None \<Rightarrow>
            (case pdoc of
               None \<Rightarrow> (None, s2)
             | Some p \<Rightarrow>
               (let (now, s3) = call (time_Now env) Now s2 in
                if After nextCrawl now then (None, s3)
                else
                  (let ((_, err), s4) =
                         call (crawlDoc env ''crawl'' (ImportPath p) (Some p) (pkgs \<noteq> []) nextCrawl)
                              (\<lambda>_. CrawlDoc ''crawl'' (ImportPath p) (Some p) (pkgs \<noteq> []) nextCrawl)
                              s3 in
                   case err of
                     None \<Rightarrow> (None, s4)
                   | Some _ \<Rightarrow>
                     (let (now', s5) = call (time_Now env) Now s4;
                          at = Add now' (duration_div (maxAge env) 3);
                          (err, s6) = call (db_SetNextCrawlEtag env (ProjectRoot p) (Etag p) at)
                                           (SetNextCrawlEtag (ProjectRoot p) (Etag p) at) s5 in
                      case err of
                        Some e \<Rightarrow> (None, emit (Log (LogTouchLastCrawl (ImportPath p) e)) s6)
                      | None \<Rightarrow> (None, s6)))))))"

subsection \<open>readGitHubUpdates\<close>

definition key :: string where
  "key = ''gitHubUpdates''"

text \<open>The body of the loop over \<open>names\<close>.\<close>

definition bump_name :: "'w collaborators \<Rightarrow> 'w state \<Rightarrow> string \<Rightarrow> 'w state" where
  "bump_name env s name =
    (let s1 = emit (Log (LogBumpCrawl name)) s;
         (err, s2) = call (db_BumpCrawl env (''github.com/'' @ name))
                          (BumpCrawl (''github.com/'' @ name)) s1 in
     case err of
       Some e \<Rightarrow> emit (Log (LogForceCrawl e)) s2
     | None \<Rightarrow> s2)"

definition readGitHubUpdates :: "'w collaborators \<Rightarrow> 'w state \<Rightarrow> error option \<times> 'w state" where
  "readGitHubUpdates env s0 =
    (let ((last0, err), s1) = call (db_GetGob env key []) (\<lambda>_. GetGob key) s0 in
     if err \<noteq> None then (err, s1)
     else
       (let ((last1, names, err), s2) =
              call (gosrc_GetGitHubUpdates env last0) (\<lambda>_. GetGitHubUpdates last0) s1 in
        if err \<noteq> None then (err, s2)
        else
          (let s3 = foldl (bump_name env) s2 names;
               (err, s4) = call (db_PutGob env key last1) (PutGob key last1) s3 in
           if err \<noteq> None then (err, s4) else (None, s4))))"

subsection \<open>checkPackagesToSuppress\<close>

text \<open>
  The body of the loop over the responses. \<open>err\<close> is the function-level variable that the
  first log line prints: the loop's own \<open>err\<close> is declared only further down. Inside
  the function \<open>db\<close> is the handle returned by \<open>database.New\<close>; its \<open>Get\<close> and \<open>Put\<close>
  are the same collaborators as those of the package-level handle.
\<close>

definition suppress_response ::
    "'w collaborators \<Rightarrow> error option \<Rightarrow> 'w state \<Rightarrow> SuppressResponse \<Rightarrow> 'w state" where
  "suppress_response env err s response =
    (if Error response \<noteq> None then emit (Log (LogChecking (Path (Package response)) err)) s
     else if \<not> Suppress response then s
     else
       (let ((pkg, _, _, err), s1) =
              call (db_Get env (Path (Package response))) (\<lambda>_. Get (Path (Package response))) s in
        case err of
          Some e \<Rightarrow> emit (Log (LogRetrieving (Path (Package response)) e)) s1
        | None \<Rightarrow>
          (let (err, s2) = call (db_Put env pkg zeroTime True) (Put pkg zeroTime True) s1 in
           case err of
             Some e \<Rightarrow> emit (Log (LogUpdating (Path (Package response)) e)) s2
           | None \<Rightarrow> s2)))"

text \<open>
  The channel is closed by its producer after one response per package, so the loop
  consumes a finite sequence; it is taken in the order of arrival.
\<close>

definition suppress_loop ::
    "'w collaborators \<Rightarrow> error option \<Rightarrow> database_Package list \<Rightarrow> GithubAuth option
       \<Rightarrow> 'w state \<Rightarrow> error option \<times> 'w state" where
  "suppress_loop env err pkgs auth s =
    (let (responses, s1) = call (gddoexp_ShouldSuppressPackages env pkgs auth)
                                (\<lambda>_. ShouldSuppressPackages pkgs auth) s in
     (None, foldl (suppress_response env err) s1 responses))"

definition checkPackagesToSuppress ::
    "'w collaborators \<Rightarrow> 'w state \<Rightarrow> error option \<times> 'w state" where
  "checkPackagesToSuppress env s0 =
    (let (err, s1) = call (database_New env) (\<lambda>_. DatabaseNew) s0 in
     case err of
       Some e \<Rightarrow> (err, emit (Log (LogConnecting e)) s1)
     | None \<Rightarrow>
       (let ((pkgs, err), s2) = call (db_AllPackages env) (\<lambda>_. AllPackages) s1 in
        case err of
          Some e \<Rightarrow> (err, emit (Log (LogAllPackages e)) s2)
        | None \<Rightarrow>
          if gitHubCredentials env \<noteq> [] then
            (let (values, perr) = url_ParseQuery env (gitHubCredentials env) in
             case perr of
               Some e \<Rightarrow> (perr, emit (Log (LogParseAuth e)) s2)
             | None \<Rightarrow>
               suppress_loop env err pkgs
                 (Some \<lparr>ID = Values_Get values ''client_id'',
                        Secret = Values_Get values ''client_secret''\<rparr>) s2)
          else suppress_loop env err pkgs None s2))"

subsection \<open>runBackgroundTasks\<close>

record 'w task =
  name :: string
  fn :: "'w state \<Rightarrow> error option \<times> 'w state"
  interval :: Duration
  next_run :: Time

text \<open>
  The table \<open>backgroundTasks\<close>; the three intervals are the values of the flags
  \<open>github_interval\<close>, \<open>crawl_interval\<close> and \<open>suppress_packages\<close>, and the field
  \<open>next\<close> (here \<open>next_run\<close>) starts at the zero time.
\<close>

definition backgroundTasks ::
    "'w collaborators \<Rightarrow> Duration \<Rightarrow> Duration \<Rightarrow> Duration \<Rightarrow> 'w task list" where
  "backgroundTasks env github_interval crawl_interval suppress_packages =
    [\<lparr>name = ''GitHub updates'', fn = readGitHubUpdates env,
      interval = github_interval, next_run = zeroTime\<rparr>,
     \<lparr>name = ''Crawl'', fn = doCrawl env,
      interval = crawl_interval, next_run = zeroTime\<rparr>,
     \<lparr>name = ''Suppress packages'', fn = checkPackagesToSuppress env,
      interval = suppress_packages, next_run = zeroTime\<rparr>]"

text \<open>The first loop: the period the scheduler sleeps between two passes.\<close>

definition sleep_period :: "'w task list \<Rightarrow> Duration" where
  "sleep_period tasks =
    foldl (\<lambda>sleep task. if 0 <s interval task \<and> interval task <s sleep
                         then interval task else sleep) Minute tasks"

text \<open>The body of the inner loop, for the task at index \<open>i\<close>.\<close>

definition run_task ::
    "'w collaborators \<Rightarrow> 'w task list \<times> 'w state \<Rightarrow> nat \<Rightarrow> 'w task list \<times> 'w state" where
  "run_task env ts i =
    (let (tasks, s) = ts;
         task = tasks ! i;
         (start, s1) = call (time_Now env) Now s in
     if 0 <s interval task \<and> After start (next_run task) then
       (let (err, s2) = fn task (emit (RunTask i) s1);
            s3 = (case err of
                    Some e \<Rightarrow> emit (Log (LogTask (name task) e)) s2
                  | None \<Rightarrow> s2);
            (now, s4) = call (time_Now env) Now s3 in
        (tasks[i := task\<lparr>next_run := Add now (interval task)\<rparr>], s4))
     else (tasks, s1))"

text \<open>One pass of the outer loop: every task in order, then the sleep.\<close>

definition tick ::
    "'w collaborators \<Rightarrow> Duration \<Rightarrow> 'w task list \<times> 'w state \<Rightarrow> 'w task list \<times> 'w state" where
  "tick env sleep ts =
    (let (tasks, s) = foldl (run_task env) ts [0..<length (fst ts)];
         (_, s') = call (\<lambda>w. ((), time_Sleep env sleep w)) (\<lambda>_. Sleep sleep) s in
     (tasks, s'))"

text \<open>
  The outer loop has no exit, so the deferred "Background exiting" line is never
  written; \<open>ticks env sleep n\<close> is the state after the first \<open>n\<close> passes, and a property
  of every pass is a property for all \<open>n\<close>.
\<close>

fun ticks ::
    "'w collaborators \<Rightarrow> Duration \<Rightarrow> nat \<Rightarrow> 'w task list \<times> 'w state \<Rightarrow> 'w task list \<times> 'w state" where
  "ticks env sleep 0 ts = ts"
| "ticks env sleep (Suc n) ts = ticks env sleep n (tick env sleep ts)"

definition runBackgroundTasks ::
    "'w collaborators \<Rightarrow> nat \<Rightarrow> 'w task list \<Rightarrow> 'w state \<Rightarrow> 'w task list \<times> 'w state" where
  "runBackgroundTasks env n tasks s = ticks env (sleep_period tasks) n (tasks, s)"

subsection \<open>Notions used in the statements\<close>

text \<open>The signed values of the positive intervals of a task table, in table order.\<close>

definition positive_intervals :: "'w task list \<Rightarrow> int list" where
  "positive_intervals tasks =
    map (\<lambda>t. sint (interval t)) (filter (\<lambda>t. 0 <s interval t) tasks)"

text \<open>A crawl attempt is a call of \<open>crawlDoc\<close>.\<close>

fun is_crawl :: "event \<Rightarrow> bool" where
  "is_crawl (CrawlDoc _ _ _ _ _) = True"
| "is_crawl _ = False"

text \<open>
  The refresh path of \<open>doCrawl\<close>: asking the catalog for the most overdue package,
  crawling with source "crawl", rescheduling.
\<close>

fun is_refresh :: "event \<Rightarrow> bool" where
  "is_refresh (Get _) = True"
| "is_refresh (CrawlDoc src _ _ _ _) = (src = ''crawl'')"
| "is_refresh (SetNextCrawlEtag _ _ _ _) = True"
| "is_refresh _ = False"

text \<open>The import paths handed to \<open>BumpCrawl\<close>, and the events of the loop over the batch.\<close>

fun bumped :: "event \<Rightarrow> string list" where
  "bumped (BumpCrawl p _) = [p]"
| "bumped _ = []"

fun is_bump_event :: "event \<Rightarrow> bool" where
  "is_bump_event (BumpCrawl _ _) = True"
| "is_bump_event (Log (LogBumpCrawl _)) = True"
| "is_bump_event (Log (LogForceCrawl _)) = True"
| "is_bump_event _ = False"

text \<open>Every failed \<open>BumpCrawl\<close> is followed at once by the log line with its error.\<close>

fun failures_logged :: "event list \<Rightarrow> bool" where
  "failures_logged [] = True"
| "failures_logged (BumpCrawl p (Some e) # es) =
     (es \<noteq> [] \<and> hd es = Log (LogForceCrawl e) \<and> failures_logged es)"
| "failures_logged (_ # es) = failures_logged es"

text \<open>
  A scoring result needs an action when it carries an error (a log line) or asks for
  suppression (a re-fetch); \<open>handled\<close> gives the package path of the event that starts
  that action.
\<close>

definition needs_action :: "SuppressResponse \<Rightarrow> bool" where
  "needs_action r = (Error r \<noteq> None \<or> Suppress r)"

fun handled :: "event \<Rightarrow> string list" where
  "handled (Log (LogChecking p _)) = [p]"
| "handled (Get p) = [p]"
| "handled _ = []"

subsection \<open>Notions used in the proofs\<close>

text \<open>\<open>s'\<close> extends the trace of \<open>s\<close> by events that all satisfy \<open>P\<close>.\<close>

definition appends :: "(event \<Rightarrow> bool) \<Rightarrow> 'w state \<Rightarrow> 'w state \<Rightarrow> bool" where
  "appends P s s' = (\<exists>es. trace s' = trace s @ es \<and> list_all P es)"

text \<open>The events of the three tasks: everything but the scheduler's own events.\<close>

fun task_event :: "event \<Rightarrow> bool" where
  "task_event (RunTask _) = False"
| "task_event (Sleep _) = False"
| "task_event (Log (LogTask _ _)) = False"
| "task_event _ = True"

text \<open>Two task tables that differ at most in the field \<open>next\<close>.\<close>

definition same_table :: "'w task list \<Rightarrow> 'w task list \<Rightarrow> bool" where
  "same_table tasks' tasks =
    (length tasks' = length tasks \<and>
     (\<forall>j<length tasks. name (tasks' ! j) = name (tasks ! j) \<and> fn (tasks' ! j) = fn (tasks ! j)
                       \<and> interval (tasks' ! j) = interval (tasks ! j)))"

text \<open>
  What the scheduler can append: an invocation only of a task with a positive interval,
  and a failure line only with the name of a task whose action can return that error.
\<close>

fun sched_ok :: "'w task list \<Rightarrow> event \<Rightarrow> bool" where
  "sched_ok tasks (RunTask j) = (j < length tasks \<and> 0 <s interval (tasks ! j))"
| "sched_ok tasks (Log (LogTask nm err)) =
     (\<exists>j<length tasks. name (tasks ! j) = nm \<and> (\<exists>s. fst (fn (tasks ! j) s) = Some err))"
| "sched_ok tasks _ = True"

subsection \<open>Example collaborators\<close>

text \<open>
  A small world for running the model: the world is a clock that advances by one at
  every reading and by the duration slept. The queue holds "example.com/foo", whose
  fetch yields neither a document nor an error (scenario 1 of the specification); the
  feed answers cursor "B" and the identifiers x and y (scenarios 3 and 4), and
  enqueueing y fails.
\<close>

definition example_doc :: doc_Package where
  "example_doc =
    \<lparr>ImportPath = ''example.com/bar/baz'', ProjectRoot = ''example.com/bar'', Etag = ''v1''\<rparr>"

definition example_env :: "nat collaborators" where
  "example_env =
    \<lparr>db_PopNewCrawl = (\<lambda>w. ((''example.com/foo'', False, None), w)),
     crawlDoc = (\<lambda>_ _ _ _ _ w. ((None, None), w)),
     db_AddBadCrawl = (\<lambda>_ w. (None, w)),
     db_Get = (\<lambda>_ w. ((Some example_doc, [], 7, None), w)),
     db_SetNextCrawlEtag = (\<lambda>_ _ _ w. (None, w)),
     db_GetGob = (\<lambda>_ _ w. ((''A'', None), w)),
     gosrc_GetGitHubUpdates = (\<lambda>_ w. ((''B'', [''x'', ''y''], None), w)),
     db_BumpCrawl = (\<lambda>p w. (if p = ''github.com/y'' then Some ''busy'' else None, w)),
     db_PutGob = (\<lambda>_ _ w. (None, w)),
     database_New = (\<lambda>w. (None, w)),
     db_AllPackages = (\<lambda>w. (([\<lparr>Path = ''a''\<rparr>, \<lparr>Path = ''b''\<rparr>, \<lparr>Path = ''c''\<rparr>], None), w)),
     url_ParseQuery = (\<lambda>_. (Map.empty, None)),
     gddoexp_ShouldSuppressPackages = (\<lambda>_ _ w.
        ([\<lparr>Package = \<lparr>Path = ''a''\<rparr>, Suppress = False, Error = Some ''timeout''\<rparr>,
          \<lparr>Package = \<lparr>Path = ''b''\<rparr>, Suppress = False, Error = None\<rparr>,
          \<lparr>Package = \<lparr>Path = ''c''\<rparr>, Suppress = True, Error = None\<rparr>], w)),
     db_Put = (\<lambda>_ _ _ w. (None, w)),
     time_Now = (\<lambda>w. (int w, Suc w)),
     time_Sleep = (\<lambda>d w. w + nat (sint d)),
     maxAge = 86400000000000,
     gitHubCredentials = []\<rparr>"

text \<open>The queue is empty and refreshing the most overdue package fails.\<close>

definition refresh_fails_env :: "Duration \<Rightarrow> nat collaborators" where
  "refresh_fails_env max_age =
    example_env\<lparr>db_PopNewCrawl := (\<lambda>w. (([], False, None), w)),
                crawlDoc := (\<lambda>_ _ _ _ _ w. ((None, Some ''not found''), w)),
                maxAge := max_age\<rparr>"

text \<open>The fetch of the queued target yields a document, and takes one unit of time.\<close>

definition fetch_succeeds_env :: "nat collaborators" where
  "fetch_succeeds_env =
    example_env\<lparr>crawlDoc := (\<lambda>_ _ _ _ _ w. ((Some example_doc, None), Suc w))\<rparr>"

text \<open>The persisted cursor cannot be read.\<close>

definition cursor_unreadable_env :: "nat collaborators" where
  "cursor_unreadable_env = example_env\<lparr>db_GetGob := (\<lambda>_ _ w. (([], Some ''corrupt''), w))\<rparr>"

text \<open>Re-fetching a package record fails.\<close>

definition refetch_fails_env :: "nat collaborators" where
  "refetch_fails_env =
    example_env\<lparr>db_Get := (\<lambda>_ w. ((None, [], 0, Some ''unavailable''), w))\<rparr>"

definition start_state :: "nat state" where
  "start_state = \<lparr>world = 100, trace = []\<rparr>"

section \<open>Properties\<close>

subsection \<open>Arithmetic of durations\<close>

lemma sdiv3_cases: "(a::int) sdiv 3 = (if 0 \<le> a then a div 3 else - ((- a) div 3))"
  by (simp add: signed_divide_int_def sgn_if)

lemma sint_duration_div3: "sint (duration_div a 3) = sint a sdiv 3"
proof -
  have lo: "- (2 ^ 63) \<le> sint a" using sint_ge [of a] by simp
  have hi: "sint a < 2 ^ 63" using sint_lt [of a] by simp
  have "- (2 ^ 63) \<le> sint a sdiv 3 \<and> sint a sdiv 3 < 2 ^ 63"
    using lo hi unfolding sdiv3_cases by (auto; linarith)
  then have "signed_take_bit 63 (sint a sdiv 3) = sint a sdiv 3"
    by (intro signed_take_bit_int_eq_self) simp_all
  then show ?thesis by (simp add: duration_div_def sint_sbintrunc')
qed

lemma sdiv3_pos: "0 < (a::int) sdiv 3 \<longleftrightarrow> 3 \<le> a"
  unfolding sdiv3_cases by (auto; linarith)

lemma Min_drop_larger:
  assumes fin: "finite S" and le: "(b::int) \<le> a"
  shows "Min (insert a (insert b S)) = Min (insert b S)"
proof -
  have "Min (insert b S) \<le> b" using fin by (intro Min_le) simp_all
  then have "min a (Min (insert b S)) = Min (insert b S)" using le by simp
  moreover have "Min (insert a (insert b S)) = min a (Min (insert b S))"
    using fin by (intro Min_insert) simp_all
  ultimately show ?thesis by simp
qed

subsection \<open>The sleep period\<close>

lemma sleep_fold:
  "sint (foldl (\<lambda>sleep task. if 0 <s interval task \<and> interval task <s sleep
                               then interval task else sleep) acc tasks)
   = Min (set (sint acc # positive_intervals tasks))"
proof (induction tasks arbitrary: acc)
  case Nil
  then show ?case by (simp add: positive_intervals_def)
next
  case (Cons t ts)
  let ?S = "set (positive_intervals ts)"
  have fin: "finite ?S" by simp
  show ?case
  proof (cases "0 <s interval t")
    case pos: True
    have eq: "positive_intervals (t # ts) = sint (interval t) # positive_intervals ts"
      using pos by (simp add: positive_intervals_def)
    show ?thesis
    proof (cases "interval t <s acc")
      case True
      then have "sint (interval t) \<le> sint acc" by (simp add: word_sless_alt)
      then have "Min (insert (sint acc) (insert (sint (interval t)) ?S))
                   = Min (insert (sint (interval t)) ?S)"
        by (rule Min_drop_larger [OF fin])
      with pos True show ?thesis using Cons.IH [of "interval t"] by (simp add: eq)
    next
      case False
      then have "sint acc \<le> sint (interval t)" by (simp add: word_sless_alt)
      then have "Min (insert (sint (interval t)) (insert (sint acc) ?S))
                   = Min (insert (sint acc) ?S)"
        by (rule Min_drop_larger [OF fin])
      with pos False show ?thesis using Cons.IH [of acc] by (simp add: eq insert_commute)
    qed
  next
    case False
    then have eq: "positive_intervals (t # ts) = positive_intervals ts"
      by (simp add: positive_intervals_def)
    with False show ?thesis using Cons.IH [of acc] by simp
  qed
qed

text \<open>
  C1 (as the code has it). The period starts at one minute and is only ever lowered, so
  it is the minimum of one minute and the positive intervals: one minute caps it. It
  equals the smallest positive interval exactly when that interval is at most a minute.
\<close>

theorem sleep_period_is_capped_minimum:
  "sint (sleep_period tasks) = Min (set (sint Minute # positive_intervals tasks))"
  unfolding sleep_period_def by (rule sleep_fold)

theorem sleep_period_is_capped_minimum_witness:
  "sint (sleep_period (backgroundTasks example_env 0 90000000000 5000000000)) = 5000000000
   \<and> Min (set (sint Minute # positive_intervals
                   (backgroundTasks example_env 0 90000000000 5000000000))) = 5000000000"
  using sleep_period_is_capped_minimum [of "backgroundTasks example_env 0 90000000000 5000000000"]
  by (simp add: positive_intervals_def backgroundTasks_def Minute_def word_sless_alt)

text \<open>
  C1 as stated fails: with the single positive interval of two minutes, the smallest
  positive interval is two minutes, and the period is one minute.
\<close>

theorem sleep_period_counterexample:
  "positive_intervals (backgroundTasks example_env 120000000000 0 0) = [120000000000]
   \<and> sint (sleep_period (backgroundTasks example_env 120000000000 0 0)) = 60000000000"
  by (simp add: positive_intervals_def sleep_period_def backgroundTasks_def Minute_def
        word_sless_alt)

subsection \<open>doCrawl\<close>

text \<open>
  C5. When the queue hands out a target and its fetch returns no document and no
  error, \<open>doCrawl\<close> calls \<open>AddBadCrawl\<close> with that import path and returns nil; the
  trace of the run holds one crawl, the one of the new target, and whatever
  \<open>AddBadCrawl\<close> answers is at most logged.
\<close>

theorem doCrawl_marks_bad_crawl:
  assumes "db_PopNewCrawl env (world s) = ((importPath, hasSubdirs, None), w1)"
    and "importPath \<noteq> []"
    and "crawlDoc env ''new'' importPath None hasSubdirs zeroTime w1 = ((None, None), w2)"
    and "db_AddBadCrawl env importPath w2 = (r, w3)"
  shows "doCrawl env s =
    (None, \<lparr>world = w3,
            trace = trace s
              @ [PopNewCrawl, CrawlDoc ''new'' importPath None hasSubdirs zeroTime,
                 AddBadCrawl importPath r]
              @ (case r of None \<Rightarrow> [] | Some e \<Rightarrow> [Log (LogAddBadCrawl importPath e)])\<rparr>)"
  using assms by (simp add: doCrawl_def call_def emit_def split: option.splits)

theorem doCrawl_marks_bad_crawl_witness:
  "db_PopNewCrawl example_env (world start_state) = ((''example.com/foo'', False, None), 100)
   \<and> crawlDoc example_env ''new'' ''example.com/foo'' None False zeroTime 100 = ((None, None), 100)
   \<and> db_AddBadCrawl example_env ''example.com/foo'' 100 = (None, 100)
   \<and> doCrawl example_env start_state =
       (None, \<lparr>world = 100,
               trace = [PopNewCrawl, CrawlDoc ''new'' ''example.com/foo'' None False zeroTime,
                        AddBadCrawl ''example.com/foo'' None]\<rparr>)"
  using doCrawl_marks_bad_crawl
          [of example_env start_state "''example.com/foo''" False 100 100 None 100]
  by (simp add: example_env_def start_state_def)


lemma doCrawl_trace_facts:
  "\<exists>w es. doCrawl env s = (None, \<lparr>world = w, trace = trace s @ es\<rparr>)
     \<and> list_all task_event es
     \<and> length (filter is_crawl es) \<le> 1
     \<and> (\<forall>p h w1. db_PopNewCrawl env (world s) = ((p, h, None), w1) \<and> p \<noteq> [] \<longrightarrow>
           filter is_crawl es = [CrawlDoc ''new'' p None h zeroTime]
           \<and> filter is_refresh es = [])"
proof -
  obtain p h e0 w1 where pop: "db_PopNewCrawl env (world s) = ((p, h, e0), w1)"
    by (metis prod.exhaust)
  obtain d1 e1 w2 where c1: "crawlDoc env ''new'' p None h zeroTime w1 = ((d1, e1), w2)"
    by (metis prod.exhaust)
  obtain r3 w3 where ab: "db_AddBadCrawl env p w2 = (r3, w3)"
    by (metis prod.exhaust)
  obtain pd pk nc eg wg where g: "db_Get env ''-'' w1 = ((pd, pk, nc, eg), wg)"
    by (metis prod.exhaust)
  obtain now wn where n: "time_Now env wg = (now, wn)"
    by (metis prod.exhaust)
  show ?thesis
  proof (cases pd)
    case None
    then show ?thesis
      using pop c1 ab g
      by (simp add: doCrawl_def call_def emit_def Let_def split: option.splits)
  next
    case (Some q)
    obtain d2 e2 w4 where c2:
      "crawlDoc env ''crawl'' (ImportPath q) (Some q) (pk \<noteq> []) nc wn = ((d2, e2), w4)"
      by (metis prod.exhaust)
    obtain now' w5 where n2: "time_Now env w4 = (now', w5)"
      by (metis prod.exhaust)
    obtain r6 w6 where se:
      "db_SetNextCrawlEtag env (ProjectRoot q) (Etag q)
         (Add now' (duration_div (maxAge env) 3)) w5 = (r6, w6)"
      by (metis prod.exhaust)
    show ?thesis
      using Some pop c1 ab g n c2 n2 se
      by (simp add: doCrawl_def call_def emit_def Let_def split: option.splits)
  qed
qed


lemma doCrawl_appends: "appends task_event s (snd (doCrawl env s))"
  using doCrawl_trace_facts [of env s] by (auto simp: appends_def)


text \<open>
  C4. Every path of \<open>doCrawl\<close>, as the exact run: the world is threaded through the
  collaborators in the order given and the trace holds the same calls. A failed pop
  crawls nothing. When the queue hands out a target (a non-empty import path and no
  error), \<open>crawlDoc\<close> is applied once, to that target with source "new" and to the
  world the pop left, whatever the fetch returns; the run ends there or after
  \<open>AddBadCrawl\<close>, and the catalog is not asked for a package to refresh. With an empty
  queue the refresh path applies \<open>crawlDoc\<close> at most once, with source "crawl". In
  every run the trace gains at most one crawl.
\<close>

theorem doCrawl_at_most_one_crawl:
  "(db_PopNewCrawl env (world s) = ((p, h, Some e0), w1) \<longrightarrow>
      doCrawl env s =
        (None, \<lparr>world = w1, trace = trace s @ [PopNewCrawl, Log (LogPopNewCrawl e0)]\<rparr>))
   \<and> (db_PopNewCrawl env (world s) = ((p, h, None), w1) \<and> p \<noteq> []
        \<and> crawlDoc env ''new'' p None h zeroTime w1 = ((d, e), w2)
        \<and> db_AddBadCrawl env p w2 = (r, w3) \<longrightarrow>
      doCrawl env s =
        (None,
         if d = None \<and> e = None
         then \<lparr>world = w3,
               trace = trace s
                 @ [PopNewCrawl, CrawlDoc ''new'' p None h zeroTime, AddBadCrawl p r]
                 @ (case r of None \<Rightarrow> [] | Some e' \<Rightarrow> [Log (LogAddBadCrawl p e')])\<rparr>
         else \<lparr>world = w2,
               trace = trace s @ [PopNewCrawl, CrawlDoc ''new'' p None h zeroTime]\<rparr>)
      \<and> filter is_crawl (events_since s (snd (doCrawl env s)))
          = [CrawlDoc ''new'' p None h zeroTime]
      \<and> filter is_refresh (events_since s (snd (doCrawl env s))) = [])
   \<and> (db_PopNewCrawl env (world s) = (([], h, None), w1)
        \<and> db_Get env ''-'' w1 = ((pd, pks, nc, Some eg), wg) \<longrightarrow>
      doCrawl env s =
        (None, \<lparr>world = wg, trace = trace s @ [PopNewCrawl, Get ''-'', Log (LogGet eg)]\<rparr>))
   \<and> (db_PopNewCrawl env (world s) = (([], h, None), w1)
        \<and> db_Get env ''-'' w1 = ((None, pks, nc, None), wg) \<longrightarrow>
      doCrawl env s = (None, \<lparr>world = wg, trace = trace s @ [PopNewCrawl, Get ''-'']\<rparr>))
   \<and> (db_PopNewCrawl env (world s) = (([], h, None), w1)
        \<and> db_Get env ''-'' w1 = ((Some q, pks, nc, None), wg)
        \<and> time_Now env wg = (now, wn) \<and> After nc now \<longrightarrow>
      doCrawl env s =
        (None, \<lparr>world = wn, trace = trace s @ [PopNewCrawl, Get ''-'', Now now]\<rparr>))
   \<and> (db_PopNewCrawl env (world s) = (([], h, None), w1)
        \<and> db_Get env ''-'' w1 = ((Some q, pks, nc, None), wg)
        \<and> time_Now env wg = (now, wn) \<and> \<not> After nc now
        \<and> crawlDoc env ''crawl'' (ImportPath q) (Some q) (pks \<noteq> []) nc wn
             = ((d2, None), w4) \<longrightarrow>
      doCrawl env s =
        (None, \<lparr>world = w4,
                trace = trace s
                  @ [PopNewCrawl, Get ''-'', Now now,
                     CrawlDoc ''crawl'' (ImportPath q) (Some q) (pks \<noteq> []) nc]\<rparr>))
   \<and> (db_PopNewCrawl env (world s) = (([], h, None), w1)
        \<and> db_Get env ''-'' w1 = ((Some q, pks, nc, None), wg)
        \<and> time_Now env wg = (now, wn) \<and> \<not> After nc now
        \<and> crawlDoc env ''crawl'' (ImportPath q) (Some q) (pks \<noteq> []) nc wn
             = ((d2, Some e2), w4)
        \<and> time_Now env w4 = (now', w5)
        \<and> db_SetNextCrawlEtag env (ProjectRoot q) (Etag q)
             (Add now' (duration_div (maxAge env) 3)) w5 = (r6, w6) \<longrightarrow>
      doCrawl env s =
        (None, \<lparr>world = w6,
                trace = trace s
                  @ [PopNewCrawl, Get ''-'', Now now,
                     CrawlDoc ''crawl'' (ImportPath q) (Some q) (pks \<noteq> []) nc, Now now',
                     SetNextCrawlEtag (ProjectRoot q) (Etag q)
                       (Add now' (duration_div (maxAge env) 3)) r6]
                  @ (case r6 of None \<Rightarrow> []
                     | Some e' \<Rightarrow> [Log (LogTouchLastCrawl (ImportPath q) e')])\<rparr>))
   \<and> length (filter is_crawl (events_since s (snd (doCrawl env s)))) \<le> 1
   \<and> trace (snd (doCrawl env s)) = trace s @ events_since s (snd (doCrawl env s))"
proof -
  have pop_error: "db_PopNewCrawl env (world s) = ((p, h, Some e0), w1) \<longrightarrow>
      doCrawl env s =
        (None, \<lparr>world = w1, trace = trace s @ [PopNewCrawl, Log (LogPopNewCrawl e0)]\<rparr>)"
    by (simp add: doCrawl_def call_def emit_def)
  have new_target: "db_PopNewCrawl env (world s) = ((p, h, None), w1) \<and> p \<noteq> []
        \<and> crawlDoc env ''new'' p None h zeroTime w1 = ((d, e), w2)
        \<and> db_AddBadCrawl env p w2 = (r, w3) \<longrightarrow>
      doCrawl env s =
        (None,
         if d = None \<and> e = None
         then \<lparr>world = w3,
               trace = trace s
                 @ [PopNewCrawl, CrawlDoc ''new'' p None h zeroTime, AddBadCrawl p r]
                 @ (case r of None \<Rightarrow> [] | Some e' \<Rightarrow> [Log (LogAddBadCrawl p e')])\<rparr>
         else \<lparr>world = w2,
               trace = trace s @ [PopNewCrawl, CrawlDoc ''new'' p None h zeroTime]\<rparr>)"
    by (simp add: doCrawl_def call_def emit_def split: option.splits)
  have new_only: "db_PopNewCrawl env (world s) = ((p, h, None), w1) \<and> p \<noteq> [] \<longrightarrow>
      filter is_crawl (events_since s (snd (doCrawl env s)))
          = [CrawlDoc ''new'' p None h zeroTime]
      \<and> filter is_refresh (events_since s (snd (doCrawl env s))) = []"
    using doCrawl_trace_facts [of env s] by (auto simp: events_since_def)
  have get_error: "db_PopNewCrawl env (world s) = (([], h, None), w1)
        \<and> db_Get env ''-'' w1 = ((pd, pks, nc, Some eg), wg) \<longrightarrow>
      doCrawl env s =
        (None, \<lparr>world = wg, trace = trace s @ [PopNewCrawl, Get ''-'', Log (LogGet eg)]\<rparr>)"
    by (simp add: doCrawl_def call_def emit_def)
  have no_package: "db_PopNewCrawl env (world s) = (([], h, None), w1)
        \<and> db_Get env ''-'' w1 = ((None, pks, nc, None), wg) \<longrightarrow>
      doCrawl env s = (None, \<lparr>world = wg, trace = trace s @ [PopNewCrawl, Get ''-'']\<rparr>)"
    by (simp add: doCrawl_def call_def emit_def)
  have not_due: "db_PopNewCrawl env (world s) = (([], h, None), w1)
        \<and> db_Get env ''-'' w1 = ((Some q, pks, nc, None), wg)
        \<and> time_Now env wg = (now, wn) \<and> After nc now \<longrightarrow>
      doCrawl env s =
        (None, \<lparr>world = wn, trace = trace s @ [PopNewCrawl, Get ''-'', Now now]\<rparr>)"
    by (simp add: doCrawl_def call_def emit_def)
  have refreshed: "db_PopNewCrawl env (world s) = (([], h, None), w1)
        \<and> db_Get env ''-'' w1 = ((Some q, pks, nc, None), wg)
        \<and> time_Now env wg = (now, wn) \<and> \<not> After nc now
        \<and> crawlDoc env ''crawl'' (ImportPath q) (Some q) (pks \<noteq> []) nc wn
             = ((d2, None), w4) \<longrightarrow>
      doCrawl env s =
        (None, \<lparr>world = w4,
                trace = trace s
                  @ [PopNewCrawl, Get ''-'', Now now,
                     CrawlDoc ''crawl'' (ImportPath q) (Some q) (pks \<noteq> []) nc]\<rparr>)"
    by (simp add: doCrawl_def call_def emit_def)
  have refresh_failed: "db_PopNewCrawl env (world s) = (([], h, None), w1)
        \<and> db_Get env ''-'' w1 = ((Some q, pks, nc, None), wg)
        \<and> time_Now env wg = (now, wn) \<and> \<not> After nc now
        \<and> crawlDoc env ''crawl'' (ImportPath q) (Some q) (pks \<noteq> []) nc wn
             = ((d2, Some e2), w4)
        \<and> time_Now env w4 = (now', w5)
        \<and> db_SetNextCrawlEtag env (ProjectRoot q) (Etag q)
             (Add now' (duration_div (maxAge env) 3)) w5 = (r6, w6) \<longrightarrow>
      doCrawl env s =
        (None, \<lparr>world = w6,
                trace = trace s
                  @ [PopNewCrawl, Get ''-'', Now now,
                     CrawlDoc ''crawl'' (ImportPath q) (Some q) (pks \<noteq> []) nc, Now now',
                     SetNextCrawlEtag (ProjectRoot q) (Etag q)
                       (Add now' (duration_div (maxAge env) 3)) r6]
                  @ (case r6 of None \<Rightarrow> []
                     | Some e' \<Rightarrow> [Log (LogTouchLastCrawl (ImportPath q) e')])\<rparr>)"
    by (simp add: doCrawl_def call_def emit_def split: option.splits)
  have count: "length (filter is_crawl (events_since s (snd (doCrawl env s)))) \<le> 1
     \<and> trace (snd (doCrawl env s)) = trace s @ events_since s (snd (doCrawl env s))"
    using doCrawl_trace_facts [of env s] by (auto simp: events_since_def)
  show ?thesis
    using pop_error new_target new_only get_error no_package not_due refreshed
      refresh_failed count
    by blast
qed

theorem doCrawl_at_most_one_crawl_witness:
  "db_PopNewCrawl fetch_succeeds_env (world start_state)
     = ((''example.com/foo'', False, None), 100)
   \<and> crawlDoc fetch_succeeds_env ''new'' ''example.com/foo'' None False zeroTime 100
       = ((Some example_doc, None), 101)
   \<and> db_AddBadCrawl fetch_succeeds_env ''example.com/foo'' 101 = (None, 101)
   \<and> doCrawl fetch_succeeds_env start_state =
       (None, \<lparr>world = 101,
               trace = [PopNewCrawl,
                        CrawlDoc ''new'' ''example.com/foo'' None False zeroTime]\<rparr>)
   \<and> filter is_refresh (events_since start_state (snd (doCrawl fetch_succeeds_env start_state)))
       = []
   \<and> length (filter is_crawl
        (events_since start_state (snd (doCrawl fetch_succeeds_env start_state)))) \<le> 1"
proof -
  have pop: "db_PopNewCrawl fetch_succeeds_env (world start_state)
               = ((''example.com/foo'', False, None), 100)"
    by (simp add: fetch_succeeds_env_def example_env_def start_state_def)
  have path: "''example.com/foo'' \<noteq> []"
    by simp
  have fetch: "crawlDoc fetch_succeeds_env ''new'' ''example.com/foo'' None False zeroTime 100
                 = ((Some example_doc, None), 101)"
    by (simp add: fetch_succeeds_env_def example_env_def)
  have bad: "db_AddBadCrawl fetch_succeeds_env ''example.com/foo'' 101 = (None, 101)"
    by (simp add: fetch_succeeds_env_def example_env_def)
  have start: "trace start_state = []"
    by (simp add: start_state_def)
  have run: "doCrawl fetch_succeeds_env start_state =
        (None,
         if Some example_doc = None \<and> (None :: error option) = None
         then \<lparr>world = 101,
               trace = trace start_state
                 @ [PopNewCrawl, CrawlDoc ''new'' ''example.com/foo'' None False zeroTime,
                    AddBadCrawl ''example.com/foo'' None]
                 @ (case None of None \<Rightarrow> []
                    | Some e' \<Rightarrow> [Log (LogAddBadCrawl ''example.com/foo'' e')])\<rparr>
         else \<lparr>world = 101,
               trace = trace start_state
                 @ [PopNewCrawl, CrawlDoc ''new'' ''example.com/foo'' None False zeroTime]\<rparr>)
      \<and> filter is_crawl (events_since start_state (snd (doCrawl fetch_succeeds_env start_state)))
          = [CrawlDoc ''new'' ''example.com/foo'' None False zeroTime]
      \<and> filter is_refresh
           (events_since start_state (snd (doCrawl fetch_succeeds_env start_state))) = []"
    by (rule doCrawl_at_most_one_crawl
               [THEN conjunct2, THEN conjunct1, THEN mp,
                OF conjI [OF pop conjI [OF path conjI [OF fetch bad]]]])
  show ?thesis
    using pop fetch bad run by (simp add: start events_since_def)
qed

text \<open>
  C6 (as the code has it). When refreshing the selected package fails, \<open>doCrawl\<close> asks
  the catalog to set that package's next crawl to the time read after the failure plus
  \<open>maxAge/3\<close> (int64 division), logs a failure of that request, and returns nil. The
  requested time is after the time read exactly when \<open>maxAge\<close> is at least 3
  nanoseconds.
\<close>

theorem doCrawl_reschedules_after_failed_refresh:
  assumes "db_PopNewCrawl env (world s) = (([], hasSubdirs, None), w1)"
    and "db_Get env ''-'' w1 = ((Some p, pkgs, nextCrawl, None), w2)"
    and "time_Now env w2 = (now, w3)"
    and "\<not> After nextCrawl now"
    and "crawlDoc env ''crawl'' (ImportPath p) (Some p) (pkgs \<noteq> []) nextCrawl w3
           = ((d, Some e), w4)"
    and "time_Now env w4 = (now', w5)"
    and "db_SetNextCrawlEtag env (ProjectRoot p) (Etag p)
           (Add now' (duration_div (maxAge env) 3)) w5 = (r, w6)"
  shows "doCrawl env s =
    (None, \<lparr>world = w6,
            trace = trace s
              @ [PopNewCrawl, Get ''-'', Now now,
                 CrawlDoc ''crawl'' (ImportPath p) (Some p) (pkgs \<noteq> []) nextCrawl, Now now',
                 SetNextCrawlEtag (ProjectRoot p) (Etag p)
                   (Add now' (duration_div (maxAge env) 3)) r]
              @ (case r of None \<Rightarrow> []
                 | Some e' \<Rightarrow> [Log (LogTouchLastCrawl (ImportPath p) e')])\<rparr>)
    \<and> (After (Add now' (duration_div (maxAge env) 3)) now' \<longleftrightarrow> 3 \<le> sint (maxAge env))"
proof -
  have "After (Add now' (duration_div (maxAge env) 3)) now' \<longleftrightarrow> 3 \<le> sint (maxAge env)"
    using sdiv3_pos [of "sint (maxAge env)"] by (simp add: After_def Add_def sint_duration_div3)
  moreover have "doCrawl env s =
    (None, \<lparr>world = w6,
            trace = trace s
              @ [PopNewCrawl, Get ''-'', Now now,
                 CrawlDoc ''crawl'' (ImportPath p) (Some p) (pkgs \<noteq> []) nextCrawl, Now now',
                 SetNextCrawlEtag (ProjectRoot p) (Etag p)
                   (Add now' (duration_div (maxAge env) 3)) r]
              @ (case r of None \<Rightarrow> []
                 | Some e' \<Rightarrow> [Log (LogTouchLastCrawl (ImportPath p) e')])\<rparr>)"
    using assms by (simp add: doCrawl_def call_def emit_def split: option.splits)
  ultimately show ?thesis by simp
qed

theorem doCrawl_reschedules_after_failed_refresh_witness:
  "db_PopNewCrawl (refresh_fails_env 86400000000000) (world start_state)
     = (([], False, None), 100)
   \<and> db_Get (refresh_fails_env 86400000000000) ''-'' 100 = ((Some example_doc, [], 7, None), 100)
   \<and> time_Now (refresh_fails_env 86400000000000) 100 = (100, 101)
   \<and> \<not> After 7 100
   \<and> crawlDoc (refresh_fails_env 86400000000000) ''crawl'' (ImportPath example_doc)
        (Some example_doc) False 7 101 = ((None, Some ''not found''), 101)
   \<and> time_Now (refresh_fails_env 86400000000000) 101 = (101, 102)
   \<and> doCrawl (refresh_fails_env 86400000000000) start_state =
       (None, \<lparr>world = 102,
               trace = [PopNewCrawl, Get ''-'', Now 100,
                        CrawlDoc ''crawl'' ''example.com/bar/baz'' (Some example_doc) False 7,
                        Now 101,
                        SetNextCrawlEtag ''example.com/bar'' ''v1'' 28800000000101 None]\<rparr>)
   \<and> After 28800000000101 101"
proof -
  have div: "duration_div 86400000000000 3 = 28800000000000"
    by (simp add: duration_div_def signed_divide_int_def)
  show ?thesis
    using doCrawl_reschedules_after_failed_refresh
            [of "refresh_fails_env 86400000000000" start_state False 100 example_doc "[]" 7 100
                100 101 None "''not found''" 101 101 102 None 102]
    by (simp add: refresh_fails_env_def example_env_def example_doc_def start_state_def
          After_def Add_def div)
qed

text \<open>
  C6 as stated fails: with \<open>maxAge = 0\<close> the refresh fails at time 101 and the package
  is rescheduled to 101, which is not after 101.
\<close>

theorem doCrawl_reschedule_counterexample:
  "doCrawl (refresh_fails_env 0) start_state =
     (None, \<lparr>world = 102,
             trace = [PopNewCrawl, Get ''-'', Now 100,
                      CrawlDoc ''crawl'' ''example.com/bar/baz'' (Some example_doc) False 7,
                      Now 101,
                      SetNextCrawlEtag ''example.com/bar'' ''v1'' 101 None]\<rparr>)
   \<and> \<not> After 101 101"
  by (simp add: doCrawl_def refresh_fails_env_def example_env_def example_doc_def
        start_state_def call_def emit_def After_def Add_def duration_div_def)

subsection \<open>readGitHubUpdates\<close>

lemma bump_name_trace:
  "\<exists>es. trace (bump_name env s nm) = trace s @ es
        \<and> concat (map bumped es) = [''github.com/'' @ nm]
        \<and> list_all is_bump_event es
        \<and> (\<forall>rest. failures_logged (es @ rest) = failures_logged rest)"
  by (auto simp: bump_name_def call_def emit_def split: prod.splits option.splits)

lemma bump_loop_trace:
  "\<exists>es. trace (foldl (bump_name env) s names) = trace s @ es
        \<and> concat (map bumped es) = map ((@) ''github.com/'') names
        \<and> list_all is_bump_event es
        \<and> failures_logged es"
proof (induction names arbitrary: s)
  case Nil
  then show ?case by simp
next
  case (Cons nm names)
  obtain es1 where 1: "trace (bump_name env s nm) = trace s @ es1"
     "concat (map bumped es1) = [''github.com/'' @ nm]" "list_all is_bump_event es1"
     "\<And>rest. failures_logged (es1 @ rest) = failures_logged rest"
    using bump_name_trace [of env s nm] by blast
  obtain es2 where 2: "trace (foldl (bump_name env) (bump_name env s nm) names) = trace (bump_name env s nm) @ es2"
     "concat (map bumped es2) = map ((@) ''github.com/'') names" "list_all is_bump_event es2"
     "failures_logged es2"
    using Cons.IH [of "bump_name env s nm"] by blast
  show ?case
    using 1 2 by (intro exI [of _ "es1 @ es2"]) simp
qed


lemma bump_name_eq:
  "db_BumpCrawl env (''github.com/'' @ nm) (world s) = (r, w) \<Longrightarrow>
     bump_name env s nm =
       \<lparr>world = w,
        trace = trace s @ [Log (LogBumpCrawl nm), BumpCrawl (''github.com/'' @ nm) r]
                  @ (case r of None \<Rightarrow> [] | Some e \<Rightarrow> [Log (LogForceCrawl e)])\<rparr>"
  by (simp add: bump_name_def call_def emit_def split: option.splits)

text \<open>
  The loop threads the world through one \<open>BumpCrawl\<close> per identifier: \<open>ws\<close> are the
  worlds before and after each call, \<open>rs\<close> what the calls returned.
\<close>

lemma bump_loop_chain:
  "\<exists>rs ws. length rs = length names \<and> length ws = Suc (length names)
      \<and> ws ! 0 = world s
      \<and> (\<forall>i<length names.
            db_BumpCrawl env (''github.com/'' @ names ! i) (ws ! i) = (rs ! i, ws ! Suc i))
      \<and> world (foldl (bump_name env) s names) = ws ! length names
      \<and> trace (foldl (bump_name env) s names)
           = trace s @ concat (map2 (\<lambda>nm r.
               [Log (LogBumpCrawl nm), BumpCrawl (''github.com/'' @ nm) r]
                 @ (case r of None \<Rightarrow> [] | Some e \<Rightarrow> [Log (LogForceCrawl e)])) names rs)"
proof (induction names arbitrary: s)
  case Nil
  show ?case by (intro exI [of _ "[]"] exI [of _ "[world s]"]) simp
next
  case (Cons nm names)
  let ?ev = "\<lambda>nm r. [Log (LogBumpCrawl nm), BumpCrawl (''github.com/'' @ nm) r]
                 @ (case r of None \<Rightarrow> [] | Some e \<Rightarrow> [Log (LogForceCrawl e)])"
  obtain r w where b: "db_BumpCrawl env (''github.com/'' @ nm) (world s) = (r, w)"
    by (metis prod.exhaust)
  let ?s1 = "\<lparr>world = w, trace = trace s @ ?ev nm r\<rparr>"
  have step: "bump_name env s nm = ?s1" using b by (rule bump_name_eq)
  obtain rs ws where ih: "length rs = length names" "length ws = Suc (length names)"
      "ws ! 0 = w"
      "\<forall>i<length names.
          db_BumpCrawl env (''github.com/'' @ names ! i) (ws ! i) = (rs ! i, ws ! Suc i)"
      "world (foldl (bump_name env) ?s1 names) = ws ! length names"
      "trace (foldl (bump_name env) ?s1 names) = trace ?s1 @ concat (map2 ?ev names rs)"
    using Cons.IH [of ?s1] by auto
  have chain: "\<forall>i<length (nm # names).
      db_BumpCrawl env (''github.com/'' @ (nm # names) ! i) ((world s # ws) ! i)
        = ((r # rs) ! i, (world s # ws) ! Suc i)"
  proof (intro allI impI)
    fix i assume "i < length (nm # names)"
    then show "db_BumpCrawl env (''github.com/'' @ (nm # names) ! i) ((world s # ws) ! i)
        = ((r # rs) ! i, (world s # ws) ! Suc i)"
      using b ih(3) ih(4) by (cases i) simp_all
  qed
  show ?case
    using ih(1,2,5,6) chain step
    by (intro exI [of _ "r # rs"] exI [of _ "world s # ws"]) simp
qed

text \<open>
  C7. After a successful feed poll the run is exact. Starting from the world the feed
  left, \<open>db.BumpCrawl\<close> is applied for every identifier of the batch in order, each to
  the world the call before it left (\<open>ws\<close>), whatever the calls return (\<open>rs\<close>); each
  attempt is announced in the log, and each failure is followed by the log line with
  its error. Only then \<open>db.PutGob\<close> is applied, to the world the last attempt left and
  with the new cursor; its result is the result of the run, its event the last of the
  trace.
\<close>

theorem readGitHubUpdates_persists_after_all_bumps:
  assumes "db_GetGob env key [] (world s) = ((last0, None), w1)"
    and "gosrc_GetGitHubUpdates env last0 w1 = ((last1, names, None), w2)"
  shows "\<exists>rs ws es r w4.
       length rs = length names \<and> length ws = Suc (length names)
     \<and> ws ! 0 = w2
     \<and> (\<forall>i<length names.
           db_BumpCrawl env (''github.com/'' @ names ! i) (ws ! i) = (rs ! i, ws ! Suc i))
     \<and> es = concat (map2 (\<lambda>nm r.
               [Log (LogBumpCrawl nm), BumpCrawl (''github.com/'' @ nm) r]
                 @ (case r of None \<Rightarrow> [] | Some e \<Rightarrow> [Log (LogForceCrawl e)])) names rs)
     \<and> db_PutGob env key last1 (ws ! length names) = (r, w4)
     \<and> readGitHubUpdates env s =
         (r, \<lparr>world = w4,
              trace = trace s @ [GetGob key, GetGitHubUpdates last0] @ es
                        @ [PutGob key last1 r]\<rparr>)
     \<and> concat (map bumped es) = map ((@) ''github.com/'') names
     \<and> list_all is_bump_event es
     \<and> failures_logged es"
proof -
  let ?ev = "\<lambda>nm r. [Log (LogBumpCrawl nm), BumpCrawl (''github.com/'' @ nm) r]
                 @ (case r of None \<Rightarrow> [] | Some e \<Rightarrow> [Log (LogForceCrawl e)])"
  let ?s2 = "\<lparr>world = w2, trace = trace s @ [GetGob key, GetGitHubUpdates last0]\<rparr>"
  let ?s3 = "foldl (bump_name env) ?s2 names"
  obtain rs ws where chain: "length rs = length names" "length ws = Suc (length names)"
      "ws ! 0 = w2"
      "\<forall>i<length names.
          db_BumpCrawl env (''github.com/'' @ names ! i) (ws ! i) = (rs ! i, ws ! Suc i)"
      "world ?s3 = ws ! length names"
      "trace ?s3 = trace ?s2 @ concat (map2 ?ev names rs)"
    using bump_loop_chain [of names ?s2 env] by auto
  obtain es where es: "trace ?s3 = trace ?s2 @ es"
     "concat (map bumped es) = map ((@) ''github.com/'') names" "list_all is_bump_event es"
     "failures_logged es"
    using bump_loop_trace [of env ?s2 names] by blast
  have same: "es = concat (map2 ?ev names rs)"
    using es(1) chain(6) by simp
  obtain r w4 where put: "db_PutGob env key last1 (ws ! length names) = (r, w4)"
    by (metis prod.exhaust)
  have run: "readGitHubUpdates env s =
          (r, \<lparr>world = w4,
               trace = trace s @ [GetGob key, GetGitHubUpdates last0] @ es
                         @ [PutGob key last1 r]\<rparr>)"
    using assms es(1) put chain(5) by (simp add: readGitHubUpdates_def call_def Let_def)
  show ?thesis
    using chain(1-4) same put run es(2-4) by blast
qed

theorem readGitHubUpdates_persists_after_all_bumps_witness:
  "db_GetGob example_env key [] (world start_state) = ((''A'', None), 100)
   \<and> gosrc_GetGitHubUpdates example_env ''A'' 100 = ((''B'', [''x'', ''y''], None), 100)
   \<and> (\<exists>rs ws es r w4.
       length rs = length [''x'', ''y''] \<and> length ws = Suc (length [''x'', ''y''])
     \<and> ws ! 0 = 100
     \<and> (\<forall>i<length [''x'', ''y''].
           db_BumpCrawl example_env (''github.com/'' @ [''x'', ''y''] ! i) (ws ! i)
             = (rs ! i, ws ! Suc i))
     \<and> es = concat (map2 (\<lambda>nm r.
               [Log (LogBumpCrawl nm), BumpCrawl (''github.com/'' @ nm) r]
                 @ (case r of None \<Rightarrow> [] | Some e \<Rightarrow> [Log (LogForceCrawl e)]))
               [''x'', ''y''] rs)
     \<and> db_PutGob example_env key ''B'' (ws ! length [''x'', ''y'']) = (r, w4)
     \<and> readGitHubUpdates example_env start_state =
         (r, \<lparr>world = w4,
              trace = trace start_state @ [GetGob key, GetGitHubUpdates ''A''] @ es
                        @ [PutGob key ''B'' r]\<rparr>)
     \<and> concat (map bumped es) = map ((@) ''github.com/'') [''x'', ''y'']
     \<and> list_all is_bump_event es
     \<and> failures_logged es)"
proof -
  have cursor: "db_GetGob example_env key [] (world start_state) = ((''A'', None), 100)"
    by (simp add: example_env_def start_state_def)
  have feed: "gosrc_GetGitHubUpdates example_env ''A'' 100 = ((''B'', [''x'', ''y''], None), 100)"
    by (simp add: example_env_def)
  show ?thesis
    by (rule conjI [OF cursor conjI [OF feed
          readGitHubUpdates_persists_after_all_bumps [OF cursor feed]]])
qed

text \<open>
  Scenario 4 of the specification, run on the model: enqueueing y fails, x is enqueued
  all the same, the failure is logged and the cursor is written as "B".
\<close>

lemma readGitHubUpdates_scenario_4:
  "readGitHubUpdates example_env start_state =
     (None, \<lparr>world = 100,
             trace = [GetGob ''gitHubUpdates'', GetGitHubUpdates ''A'',
                      Log (LogBumpCrawl ''x''), BumpCrawl ''github.com/x'' None,
                      Log (LogBumpCrawl ''y''), BumpCrawl ''github.com/y'' (Some ''busy''),
                      Log (LogForceCrawl ''busy''),
                      PutGob ''gitHubUpdates'' ''B'' None]\<rparr>)"
  by (simp add: readGitHubUpdates_def bump_name_def example_env_def start_state_def
        call_def emit_def key_def)

text \<open>
  C8. When reading the persisted cursor fails, the run returns that error and its only
  event is the read: the feed is not called, nothing is enqueued, the cursor is not
  written, and the world is the one the failed read left.
\<close>

theorem readGitHubUpdates_cursor_unreadable:
  assumes "db_GetGob env key [] (world s) = ((v, Some e), w1)"
  shows "readGitHubUpdates env s = (Some e, \<lparr>world = w1, trace = trace s @ [GetGob key]\<rparr>)"
  using assms by (simp add: readGitHubUpdates_def call_def)

theorem readGitHubUpdates_cursor_unreadable_witness:
  "db_GetGob cursor_unreadable_env key [] (world start_state) = (([], Some ''corrupt''), 100)
   \<and> readGitHubUpdates cursor_unreadable_env start_state =
       (Some ''corrupt'', \<lparr>world = 100, trace = [GetGob key]\<rparr>)"
  using readGitHubUpdates_cursor_unreadable
          [of cursor_unreadable_env start_state "[]" "''corrupt''" 100]
  by (simp add: cursor_unreadable_env_def example_env_def start_state_def)

subsection \<open>checkPackagesToSuppress\<close>

lemma suppress_response_trace:
  "\<exists>es. trace (suppress_response env err s r) = trace s @ es
      \<and> concat (map handled es) = (if needs_action r then [Path (Package r)] else [])"
  by (auto simp: suppress_response_def needs_action_def call_def emit_def split: prod.splits option.splits)

lemma suppress_fold_trace:
  "\<exists>es. trace (foldl (suppress_response env err) s rs) = trace s @ es
      \<and> concat (map handled es) = map (\<lambda>r. Path (Package r)) (filter needs_action rs)"
proof (induction rs arbitrary: s)
  case Nil
  then show ?case by simp
next
  case (Cons r rs)
  obtain es1 where 1: "trace (suppress_response env err s r) = trace s @ es1"
     "concat (map handled es1) = (if needs_action r then [Path (Package r)] else [])"
    using suppress_response_trace [of env err s r] by blast
  obtain es2 where 2: "trace (foldl (suppress_response env err) (suppress_response env err s r) rs)
        = trace (suppress_response env err s r) @ es2"
     "concat (map handled es2) = map (\<lambda>r. Path (Package r)) (filter needs_action rs)"
    using Cons.IH [of "suppress_response env err s r"] by blast
  show ?case
    using 1 2 by (intro exI [of _ "es1 @ es2"]) simp
qed


text \<open>
  C9 (as the code has it). For one scoring result: with an error, only a log line is
  written; without an error and without the suppress flag, nothing happens; with the
  suppress flag, the record is re-fetched, and when the re-fetch fails that is logged
  and no write follows, while when it succeeds \<open>Put\<close> is called with the re-fetched
  record, the zero time and the suppress flag, a failure of \<open>Put\<close> being logged. For
  the loop: every result that carries an error or the suppress flag gets its log line
  or its re-fetch, in order, whatever happened to the results before it, and the loop
  ends with nil.
\<close>

theorem suppress_response_per_result:
  "(Error r \<noteq> None \<longrightarrow>
      suppress_response env err s r = emit (Log (LogChecking (Path (Package r)) err)) s)
   \<and> (Error r = None \<and> \<not> Suppress r \<longrightarrow> suppress_response env err s r = s)
   \<and> (Error r = None \<and> Suppress r
        \<and> db_Get env (Path (Package r)) (world s) = ((pkg, pkgs, t, Some e), w1) \<longrightarrow>
      suppress_response env err s r =
        \<lparr>world = w1,
         trace = trace s @ [Get (Path (Package r)), Log (LogRetrieving (Path (Package r)) e)]\<rparr>)
   \<and> (Error r = None \<and> Suppress r
        \<and> db_Get env (Path (Package r)) (world s) = ((pkg, pkgs, t, None), w1)
        \<and> db_Put env pkg zeroTime True w1 = (pr, w2) \<longrightarrow>
      suppress_response env err s r =
        \<lparr>world = w2,
         trace = trace s @ [Get (Path (Package r)), Put pkg zeroTime True pr]
                   @ (case pr of None \<Rightarrow> []
                      | Some e' \<Rightarrow> [Log (LogUpdating (Path (Package r)) e')])\<rparr>)
   \<and> (gddoexp_ShouldSuppressPackages env ps auth (world s) = (rs, w0) \<longrightarrow>
      fst (suppress_loop env err ps auth s) = None
      \<and> (\<exists>es. events_since s (snd (suppress_loop env err ps auth s))
                 = ShouldSuppressPackages ps auth # es
             \<and> concat (map handled es)
                 = map (\<lambda>r. Path (Package r)) (filter needs_action rs)))"
proof -
  have loop: "fst (suppress_loop env err ps auth s) = None
      \<and> (\<exists>es. events_since s (snd (suppress_loop env err ps auth s))
                 = ShouldSuppressPackages ps auth # es
             \<and> concat (map handled es)
                 = map (\<lambda>r. Path (Package r)) (filter needs_action rs))"
    if call: "gddoexp_ShouldSuppressPackages env ps auth (world s) = (rs, w0)"
  proof -
    let ?s1 = "\<lparr>world = w0, trace = trace s @ [ShouldSuppressPackages ps auth]\<rparr>"
    obtain es where es: "trace (foldl (suppress_response env err) ?s1 rs) = trace ?s1 @ es"
       "concat (map handled es) = map (\<lambda>r. Path (Package r)) (filter needs_action rs)"
      using suppress_fold_trace [of env err ?s1 rs] by blast
    have "suppress_loop env err ps auth s = (None, foldl (suppress_response env err) ?s1 rs)"
      using call by (simp add: suppress_loop_def call_def)
    then show ?thesis using es by (simp add: events_since_def)
  qed
  have one: "Error r \<noteq> None \<longrightarrow>
      suppress_response env err s r = emit (Log (LogChecking (Path (Package r)) err)) s"
    by (simp add: suppress_response_def)
  have two: "Error r = None \<and> \<not> Suppress r \<longrightarrow> suppress_response env err s r = s"
    by (simp add: suppress_response_def)
  have three: "Error r = None \<and> Suppress r
        \<and> db_Get env (Path (Package r)) (world s) = ((pkg, pkgs, t, Some e), w1) \<longrightarrow>
      suppress_response env err s r =
        \<lparr>world = w1,
         trace = trace s @ [Get (Path (Package r)), Log (LogRetrieving (Path (Package r)) e)]\<rparr>"
    by (simp add: suppress_response_def call_def emit_def)
  have four: "Error r = None \<and> Suppress r
        \<and> db_Get env (Path (Package r)) (world s) = ((pkg, pkgs, t, None), w1)
        \<and> db_Put env pkg zeroTime True w1 = (pr, w2) \<longrightarrow>
      suppress_response env err s r =
        \<lparr>world = w2,
         trace = trace s @ [Get (Path (Package r)), Put pkg zeroTime True pr]
                   @ (case pr of None \<Rightarrow> []
                      | Some e' \<Rightarrow> [Log (LogUpdating (Path (Package r)) e')])\<rparr>"
    by (simp add: suppress_response_def call_def emit_def split: option.splits)
  show ?thesis using one two three four loop by blast
qed

theorem suppress_response_per_result_witness:
  "suppress_response example_env None start_state
      \<lparr>Package = \<lparr>Path = ''a''\<rparr>, Suppress = False, Error = Some ''timeout''\<rparr>
     = \<lparr>world = 100, trace = [Log (LogChecking ''a'' None)]\<rparr>
   \<and> suppress_response example_env None start_state
      \<lparr>Package = \<lparr>Path = ''b''\<rparr>, Suppress = False, Error = None\<rparr> = start_state
   \<and> suppress_response refetch_fails_env None start_state
      \<lparr>Package = \<lparr>Path = ''c''\<rparr>, Suppress = True, Error = None\<rparr>
     = \<lparr>world = 100, trace = [Get ''c'', Log (LogRetrieving ''c'' ''unavailable'')]\<rparr>
   \<and> suppress_response example_env None start_state
      \<lparr>Package = \<lparr>Path = ''c''\<rparr>, Suppress = True, Error = None\<rparr>
     = \<lparr>world = 100, trace = [Get ''c'', Put (Some example_doc) zeroTime True None]\<rparr>
   \<and> fst (suppress_loop example_env None [] None start_state) = None
   \<and> (\<exists>es. events_since start_state (snd (suppress_loop example_env None [] None start_state))
               = ShouldSuppressPackages [] None # es
            \<and> concat (map handled es) = [''a'', ''c''])"
  using suppress_response_per_result
          [of "\<lparr>Package = \<lparr>Path = ''a''\<rparr>, Suppress = False, Error = Some ''timeout''\<rparr>"
              example_env None start_state]
        suppress_response_per_result
          [of "\<lparr>Package = \<lparr>Path = ''b''\<rparr>, Suppress = False, Error = None\<rparr>"
              example_env None start_state]
        suppress_response_per_result
          [of "\<lparr>Package = \<lparr>Path = ''c''\<rparr>, Suppress = True, Error = None\<rparr>"
              refetch_fails_env None start_state None "[]" 0 "''unavailable''" 100]
        suppress_response_per_result
          [of "\<lparr>Package = \<lparr>Path = ''c''\<rparr>, Suppress = True, Error = None\<rparr>"
              example_env None start_state "Some example_doc" "[]" 7 _ 100 None 100 "[]" None
              "[\<lparr>Package = \<lparr>Path = ''a''\<rparr>, Suppress = False, Error = Some ''timeout''\<rparr>,
                \<lparr>Package = \<lparr>Path = ''b''\<rparr>, Suppress = False, Error = None\<rparr>,
                \<lparr>Package = \<lparr>Path = ''c''\<rparr>, Suppress = True, Error = None\<rparr>]" 100]
  by (simp add: example_env_def refetch_fails_env_def start_state_def emit_def
        needs_action_def)

text \<open>
  C9 as stated fails: the scorer asks to suppress package c, re-fetching c fails, and
  the run ends without any \<open>Put\<close>: the record of c is not persisted with the flag.
\<close>

theorem checkPackagesToSuppress_counterexample:
  "checkPackagesToSuppress refetch_fails_env start_state =
     (None, \<lparr>world = 100,
             trace = [DatabaseNew, AllPackages,
                      ShouldSuppressPackages [\<lparr>Path = ''a''\<rparr>, \<lparr>Path = ''b''\<rparr>, \<lparr>Path = ''c''\<rparr>] None,
                      Log (LogChecking ''a'' None), Get ''c'',
                      Log (LogRetrieving ''c'' ''unavailable'')]\<rparr>)"
  by (simp add: checkPackagesToSuppress_def suppress_loop_def suppress_response_def
        refetch_fails_env_def example_env_def start_state_def call_def emit_def)

subsection \<open>The tasks only append their own events\<close>

lemma appends_refl: "appends P s s"
  by (simp add: appends_def)

lemma appends_trans: "appends P s s' \<Longrightarrow> appends P s' s'' \<Longrightarrow> appends P s s''"
  by (auto simp: appends_def)

lemma appends_mono: "appends P s s' \<Longrightarrow> (\<And>e. P e \<Longrightarrow> Q e) \<Longrightarrow> appends Q s s'"
  by (auto simp: appends_def list_all_iff)

lemma appends_emit: "P e \<Longrightarrow> appends P s (emit e s)"
  by (simp add: appends_def emit_def)

lemma appends_call: "(\<And>r. P (ev r)) \<Longrightarrow> appends P s (snd (call f ev s))"
  by (simp add: appends_def call_def split: prod.splits)

lemma appends_events_since: "appends P s s' \<Longrightarrow> list_all P (events_since s s') \<and> trace s' = trace s @ events_since s s'"
  by (auto simp: appends_def events_since_def)

lemma appends_foldl:
  assumes "\<And>s x. appends P s (f s x)"
  shows "appends P s (foldl f s xs)"
proof (induction xs arbitrary: s)
  case Nil
  show ?case by (simp add: appends_refl)
next
  case (Cons x xs)
  show ?case using appends_trans [OF assms [of s x] Cons [of "f s x"]] by simp
qed

lemma bump_name_appends: "appends task_event s (bump_name env s nm)"
  by (auto simp: appends_def bump_name_def call_def emit_def split: prod.splits option.splits)

lemma readGitHubUpdates_appends: "appends task_event s (snd (readGitHubUpdates env s))"
proof -
  obtain last0 err0 w1 where g: "db_GetGob env key [] (world s) = ((last0, err0), w1)"
    by (metis prod.exhaust)
  obtain last1 names err1 w2 where u: "gosrc_GetGitHubUpdates env last0 w1 = ((last1, names, err1), w2)"
    by (metis prod.exhaust)
  let ?s2 = "\<lparr>world = w2, trace = trace s @ [GetGob key, GetGitHubUpdates last0]\<rparr>"
  let ?s3 = "foldl (bump_name env) ?s2 names"
  have a2: "appends task_event s ?s2" by (simp add: appends_def)
  have a3: "appends task_event ?s2 ?s3" by (rule appends_foldl) (rule bump_name_appends)
  have a4: "appends task_event ?s3 (snd (call (db_PutGob env key last1) (PutGob key last1) ?s3))"
    by (rule appends_call) simp
  show ?thesis
  proof (cases "err0 = None \<and> err1 = None")
    case True
    then have "snd (readGitHubUpdates env s) = snd (call (db_PutGob env key last1) (PutGob key last1) ?s3)"
      using g u by (simp add: readGitHubUpdates_def call_def Let_def split: prod.splits)
    then show ?thesis using appends_trans [OF appends_trans [OF a2 a3] a4] by simp
  next
    case False
    then show ?thesis using g u
      by (auto simp: readGitHubUpdates_def call_def appends_def)
  qed
qed

lemma suppress_response_appends: "appends task_event s (suppress_response env err s r)"
  by (auto simp: appends_def suppress_response_def call_def emit_def split: prod.splits option.splits)

lemma suppress_loop_appends: "appends task_event s (snd (suppress_loop env err pkgs auth s))"
proof -
  obtain rs w1 where r: "gddoexp_ShouldSuppressPackages env pkgs auth (world s) = (rs, w1)"
    by (metis prod.exhaust)
  let ?s1 = "\<lparr>world = w1, trace = trace s @ [ShouldSuppressPackages pkgs auth]\<rparr>"
  have a1: "appends task_event s ?s1" by (simp add: appends_def)
  have a2: "appends task_event ?s1 (foldl (suppress_response env err) ?s1 rs)"
    by (rule appends_foldl) (rule suppress_response_appends)
  have "snd (suppress_loop env err pkgs auth s) = foldl (suppress_response env err) ?s1 rs"
    using r by (simp add: suppress_loop_def call_def)
  then show ?thesis using appends_trans [OF a1 a2] by simp
qed

lemma checkPackagesToSuppress_appends:
  "appends task_event s (snd (checkPackagesToSuppress env s))"
proof -
  obtain err0 w1 where n: "database_New env (world s) = (err0, w1)"
    by (metis prod.exhaust)
  obtain pkgs err1 w2 where a: "db_AllPackages env w1 = ((pkgs, err1), w2)"
    by (metis prod.exhaust)
  obtain vals perr where p: "url_ParseQuery env (gitHubCredentials env) = (vals, perr)"
    by (metis prod.exhaust)
  let ?s2 = "\<lparr>world = w2, trace = trace s @ [DatabaseNew, AllPackages]\<rparr>"
  have a2: "appends task_event s ?s2" by (simp add: appends_def)
  have loop: "appends task_event s (snd (suppress_loop env e pkgs auth ?s2))" for e auth
    by (rule appends_trans [OF a2 suppress_loop_appends])
  show ?thesis
    using n a p loop
    by (auto simp: checkPackagesToSuppress_def call_def emit_def appends_def split: option.splits)
qed


subsection \<open>The scheduler\<close>

lemma task_event_sched_ok: "task_event e \<Longrightarrow> sched_ok tasks e"
  by (induction tasks e rule: sched_ok.induct) simp_all

lemma same_table_refl: "same_table tasks tasks"
  by (simp add: same_table_def)

lemma same_table_trans: "same_table c b \<Longrightarrow> same_table b a \<Longrightarrow> same_table c a"
  by (simp add: same_table_def)

lemma sched_ok_same_table:
  assumes "same_table tasks' tasks"
  shows "sched_ok tasks' e = sched_ok tasks e"
proof (cases "(tasks, e)" rule: sched_ok.cases)
  case (1 ts j)
  then show ?thesis using assms by (auto simp: same_table_def)
next
  case (2 ts nm err)
  have "(\<exists>j<length tasks'. name (tasks' ! j) = nm \<and> (\<exists>s. fst (fn (tasks' ! j) s) = Some err))
      = (\<exists>j<length tasks. name (tasks ! j) = nm \<and> (\<exists>s. fst (fn (tasks ! j) s) = Some err))"
    using assms unfolding same_table_def by metis
  with 2 show ?thesis by simp
qed (simp_all)

lemma same_table_update:
  "i < length tasks \<Longrightarrow> same_table (tasks[i := (tasks ! i)\<lparr>next_run := t\<rparr>]) tasks"
  by (simp add: same_table_def nth_list_update)

lemma run_task_facts:
  assumes i: "i < length tasks"
    and fn_ok: "\<And>s. appends task_event s (snd (fn (tasks ! i) s))"
  shows "\<exists>tasks' s'. run_task env (tasks, s) i = (tasks', s')
            \<and> same_table tasks' tasks \<and> appends (sched_ok tasks) s s'"
proof -
  obtain start w1 where n1: "time_Now env (world s) = (start, w1)"
    by (metis prod.exhaust)
  let ?s1 = "\<lparr>world = w1, trace = trace s @ [Now start]\<rparr>"
  show ?thesis
  proof (cases "0 <s interval (tasks ! i) \<and> After start (next_run (tasks ! i))")
    case False
    then have "run_task env (tasks, s) i = (tasks, ?s1)"
      using n1 by (auto simp: run_task_def call_def)
    moreover have "appends (sched_ok tasks) s ?s1" by (simp add: appends_def)
    ultimately show ?thesis by (simp add: same_table_refl)
  next
    case True
    obtain err s2 where f: "fn (tasks ! i) (emit (RunTask i) ?s1) = (err, s2)"
      by (metis prod.exhaust)
    define s3 where "s3 = (case err of Some e \<Rightarrow> emit (Log (LogTask (name (tasks ! i)) e)) s2 | None \<Rightarrow> s2)"
    obtain now w4 where n2: "time_Now env (world s3) = (now, w4)"
      by (metis prod.exhaust)
    let ?s4 = "\<lparr>world = w4, trace = trace s3 @ [Now now]\<rparr>"
    have run: "run_task env (tasks, s) i
                 = (tasks[i := (tasks ! i)\<lparr>next_run := Add now (interval (tasks ! i))\<rparr>], ?s4)"
      using True n1 f n2 by (simp add: run_task_def call_def s3_def Let_def)
    have a1: "appends (sched_ok tasks) s (emit (RunTask i) ?s1)"
      using True i by (simp add: appends_def emit_def)
    have a2: "appends (sched_ok tasks) (emit (RunTask i) ?s1) s2"
      using fn_ok [of "emit (RunTask i) ?s1"] f
      by (auto intro: appends_mono task_event_sched_ok)
    have a3: "appends (sched_ok tasks) s2 s3"
    proof (cases err)
      case None
      then show ?thesis by (simp add: s3_def appends_refl)
    next
      case (Some e)
      have "sched_ok tasks (Log (LogTask (name (tasks ! i)) e))"
        using i f Some by (auto intro!: exI [of _ i] exI [of _ "emit (RunTask i) ?s1"])
      then show ?thesis using Some by (simp add: s3_def appends_emit)
    qed
    have a4: "appends (sched_ok tasks) s3 ?s4" by (simp add: appends_def)
    have "appends (sched_ok tasks) s ?s4"
      by (rule appends_trans [OF appends_trans [OF appends_trans [OF a1 a2] a3] a4])
    then show ?thesis using run i by (simp add: same_table_update)
  qed
qed

lemma run_tasks_facts:
  assumes "\<forall>i\<in>set is. i < length tasks"
    and "\<forall>j<length tasks. \<forall>s. appends task_event s (snd (fn (tasks ! j) s))"
  shows "\<exists>tasks' s'. foldl (run_task env) (tasks, s) is = (tasks', s')
            \<and> same_table tasks' tasks \<and> appends (sched_ok tasks) s s'"
  using assms
proof (induction "is" arbitrary: tasks s)
  case Nil
  then show ?case by (simp add: same_table_refl appends_refl)
next
  case (Cons i "is")
  obtain tasks1 s1 where 1: "run_task env (tasks, s) i = (tasks1, s1)"
     "same_table tasks1 tasks" "appends (sched_ok tasks) s s1"
    using run_task_facts [of i tasks env s] Cons.prems by auto
  have len: "length tasks1 = length tasks" using 1(2) by (simp add: same_table_def)
  have fns: "\<forall>j<length tasks1. \<forall>s. appends task_event s (snd (fn (tasks1 ! j) s))"
    using Cons.prems(2) 1(2) by (simp add: same_table_def)
  have idx: "\<forall>i\<in>set is. i < length tasks1" using Cons.prems(1) len by simp
  obtain tasks2 s2 where 2: "foldl (run_task env) (tasks1, s1) is = (tasks2, s2)"
     "same_table tasks2 tasks1" "appends (sched_ok tasks1) s1 s2"
    using Cons.IH [OF idx fns, of s1] by auto
  have "appends (sched_ok tasks) s1 s2"
    using 2(3) sched_ok_same_table [OF 1(2)] by (auto simp: appends_def list_all_iff)
  then show ?case
    using 1 2 by (auto intro: same_table_trans appends_trans)
qed

lemma tick_facts:
  assumes "\<forall>j<length tasks. \<forall>s. appends task_event s (snd (fn (tasks ! j) s))"
  shows "\<exists>tasks' s'. tick env sleep (tasks, s) = (tasks', s')
            \<and> same_table tasks' tasks \<and> appends (sched_ok tasks) s s'"
proof -
  obtain tasks1 s1 where 1: "foldl (run_task env) (tasks, s) [0..<length tasks] = (tasks1, s1)"
     "same_table tasks1 tasks" "appends (sched_ok tasks) s s1"
    using run_tasks_facts [of "[0..<length tasks]" tasks env s] assms by auto
  let ?s2 = "\<lparr>world = time_Sleep env sleep (world s1), trace = trace s1 @ [Sleep sleep]\<rparr>"
  have "tick env sleep (tasks, s) = (tasks1, ?s2)"
    using 1(1) by (simp add: tick_def call_def)
  moreover have "appends (sched_ok tasks) s1 ?s2" by (simp add: appends_def)
  ultimately show ?thesis using 1 by (auto intro: appends_trans)
qed

lemma ticks_facts:
  assumes "\<forall>j<length tasks. \<forall>s. appends task_event s (snd (fn (tasks ! j) s))"
  shows "\<exists>tasks' s'. ticks env sleep n (tasks, s) = (tasks', s')
            \<and> same_table tasks' tasks \<and> appends (sched_ok tasks) s s'"
  using assms
proof (induction n arbitrary: tasks s)
  case 0
  then show ?case by (simp add: same_table_refl appends_refl)
next
  case (Suc n)
  obtain tasks1 s1 where 1: "tick env sleep (tasks, s) = (tasks1, s1)"
     "same_table tasks1 tasks" "appends (sched_ok tasks) s s1"
    using tick_facts [of tasks env sleep s] Suc.prems by auto
  have fns: "\<forall>j<length tasks1. \<forall>s. appends task_event s (snd (fn (tasks1 ! j) s))"
    using Suc.prems 1(2) by (simp add: same_table_def)
  obtain tasks2 s2 where 2: "ticks env sleep n (tasks1, s1) = (tasks2, s2)"
     "same_table tasks2 tasks1" "appends (sched_ok tasks1) s1 s2"
    using Suc.IH [OF fns, of s1] by auto
  have "appends (sched_ok tasks) s1 s2"
    using 2(3) sched_ok_same_table [OF 1(2)] by (auto simp: appends_def list_all_iff)
  then show ?case
    using 1 2 by (auto intro: same_table_trans appends_trans)
qed

lemma backgroundTasks_fns:
  "\<forall>j<length (backgroundTasks env gi ci si). \<forall>s.
      appends task_event s (snd (fn (backgroundTasks env gi ci si ! j) s))"
  by (simp add: backgroundTasks_def less_Suc_eq numeral_3_eq_3 all_conj_distrib
        readGitHubUpdates_appends doCrawl_appends checkPackagesToSuppress_appends)

lemma runBackgroundTasks_events:
  "list_all (sched_ok (backgroundTasks env gi ci si))
     (events_since s (snd (runBackgroundTasks env n (backgroundTasks env gi ci si) s)))"
proof -
  let ?bt = "backgroundTasks env gi ci si"
  have fns: "\<forall>j<length ?bt. \<forall>s. appends task_event s (snd (fn (?bt ! j) s))"
    by (rule backgroundTasks_fns)
  obtain tasks' s' where "ticks env (sleep_period ?bt) n (?bt, s) = (tasks', s')"
    and "appends (sched_ok ?bt) s s'"
    using ticks_facts [OF fns] by blast
  then show ?thesis
    using appends_events_since [of "sched_ok ?bt" s s'] by (simp add: runBackgroundTasks_def)
qed

text \<open>
  C2. In the loop body for task \<open>i\<close>, with \<open>start\<close> the time read first: when the
  interval is positive and \<open>start\<close> is after the task's \<open>next\<close>, the action runs and,
  whatever it returns, \<open>next\<close> becomes the time read after the action plus the
  interval, so that it grows by more than the interval when the clock has not gone
  back; otherwise the table is unchanged. No other entry and no other field changes.
\<close>

theorem next_run_set_after_every_run:
  assumes "i < length tasks"
    and "time_Now env (world s) = (start, w1)"
    and "fn (tasks ! i) \<lparr>world = w1, trace = trace s @ [Now start, RunTask i]\<rparr> = (err, s2)"
    and "time_Now env (world s2) = (now, w4)"
  shows "fst (run_task env (tasks, s) i) =
           (if 0 <s interval (tasks ! i) \<and> After start (next_run (tasks ! i))
            then tasks[i := (tasks ! i)\<lparr>next_run := Add now (interval (tasks ! i))\<rparr>]
            else tasks)
       \<and> (0 <s interval (tasks ! i) \<and> After start (next_run (tasks ! i)) \<and> start \<le> now \<longrightarrow>
            next_run (tasks ! i) + sint (interval (tasks ! i))
              < next_run (fst (run_task env (tasks, s) i) ! i))"
proof -
  have run: "fst (run_task env (tasks, s) i) =
           (if 0 <s interval (tasks ! i) \<and> After start (next_run (tasks ! i))
            then tasks[i := (tasks ! i)\<lparr>next_run := Add now (interval (tasks ! i))\<rparr>]
            else tasks)"
    using assms(2-4)
    by (cases err) (simp_all add: run_task_def call_def emit_def Let_def)
  show ?thesis
    unfolding run using assms(1) by (simp add: After_def Add_def)
qed

theorem next_run_set_after_every_run_witness:
  "(0::nat) < length (backgroundTasks cursor_unreadable_env 5 0 0)
   \<and> time_Now cursor_unreadable_env (world start_state) = (100, 101)
   \<and> fn (backgroundTasks cursor_unreadable_env 5 0 0 ! 0)
        \<lparr>world = 101, trace = trace start_state @ [Now 100, RunTask 0]\<rparr>
       = (Some ''corrupt'', \<lparr>world = 101, trace = [Now 100, RunTask 0, GetGob key]\<rparr>)
   \<and> time_Now cursor_unreadable_env 101 = (101, 102)
   \<and> map next_run (fst (run_task cursor_unreadable_env
                           (backgroundTasks cursor_unreadable_env 5 0 0, start_state) 0))
       = [106, 0, 0]"
proof -
  have f: "fn (backgroundTasks cursor_unreadable_env 5 0 0 ! 0)
        \<lparr>world = 101, trace = trace start_state @ [Now 100, RunTask 0]\<rparr>
       = (Some ''corrupt'', \<lparr>world = 101, trace = [Now 100, RunTask 0, GetGob key]\<rparr>)"
    by (simp add: backgroundTasks_def readGitHubUpdates_def call_def cursor_unreadable_env_def
          example_env_def start_state_def)
  have n1: "time_Now cursor_unreadable_env (world start_state) = (100, 101)"
    by (simp add: cursor_unreadable_env_def example_env_def start_state_def)
  have n2: "time_Now cursor_unreadable_env
              (world \<lparr>world = 101, trace = [Now 100, RunTask 0, GetGob key]\<rparr>) = (101, 102)"
    by (simp add: cursor_unreadable_env_def example_env_def)
  have len: "(0::nat) < length (backgroundTasks cursor_unreadable_env 5 0 0)"
    by (simp add: backgroundTasks_def)
  show ?thesis
    using f n1 n2 len next_run_set_after_every_run [OF len n1 f n2]
    by (simp add: backgroundTasks_def After_def Add_def zeroTime_def word_sless_alt)
qed

text \<open>Every run only extends the trace it starts from.\<close>

lemma doCrawl_extends_trace:
  "trace (snd (doCrawl env s)) = trace s @ events_since s (snd (doCrawl env s))"
  using appends_events_since [OF doCrawl_appends] by blast

lemma readGitHubUpdates_extends_trace:
  "trace (snd (readGitHubUpdates env s))
     = trace s @ events_since s (snd (readGitHubUpdates env s))"
  using appends_events_since [OF readGitHubUpdates_appends] by blast

lemma checkPackagesToSuppress_extends_trace:
  "trace (snd (checkPackagesToSuppress env s))
     = trace s @ events_since s (snd (checkPackagesToSuppress env s))"
  using appends_events_since [OF checkPackagesToSuppress_appends] by blast

lemma runBackgroundTasks_extends_trace:
  "trace (snd (runBackgroundTasks env n (backgroundTasks env gi ci si) s))
     = trace s @ events_since s (snd (runBackgroundTasks env n (backgroundTasks env gi ci si) s))"
proof -
  let ?bt = "backgroundTasks env gi ci si"
  have fns: "\<forall>j<length ?bt. \<forall>s. appends task_event s (snd (fn (?bt ! j) s))"
    by (rule backgroundTasks_fns)
  obtain tasks' s' where "ticks env (sleep_period ?bt) n (?bt, s) = (tasks', s')"
    and "appends (sched_ok ?bt) s s'"
    using ticks_facts [OF fns] by blast
  then show ?thesis
    using appends_events_since [of "sched_ok ?bt" s s'] by (simp add: runBackgroundTasks_def)
qed

text \<open>
  C3. In any number of passes of the scheduler over the task table, from any state and
  with any collaborators, the action of a task whose interval is zero is not invoked.
\<close>

theorem disabled_task_never_runs:
  assumes "i < length (backgroundTasks env gi ci si)"
    and "interval (backgroundTasks env gi ci si ! i) = 0"
  shows "RunTask i \<notin> set (events_since s
           (snd (runBackgroundTasks env n (backgroundTasks env gi ci si) s)))"
proof
  assume "RunTask i \<in> set (events_since s
            (snd (runBackgroundTasks env n (backgroundTasks env gi ci si) s)))"
  then have "sched_ok (backgroundTasks env gi ci si) (RunTask i)"
    using runBackgroundTasks_events [of env gi ci si s n] by (auto simp: list_all_iff)
  then show False using assms(2) by simp
qed

text \<open>Two passes with only the crawl task enabled (interval 1ns), run on the model.\<close>

lemma runBackgroundTasks_example:
  "trace (snd (runBackgroundTasks example_env 2 (backgroundTasks example_env 0 1 0) start_state))
     = [Now 100, Now 101, RunTask 1, PopNewCrawl,
        CrawlDoc ''new'' ''example.com/foo'' None False 0,
        AddBadCrawl ''example.com/foo'' None, Now 102, Now 103, Sleep 1,
        Now 105, Now 106, RunTask 1, PopNewCrawl,
        CrawlDoc ''new'' ''example.com/foo'' None False 0,
        AddBadCrawl ''example.com/foo'' None, Now 107, Now 108, Sleep 1]"
  by (simp add: runBackgroundTasks_def tick_def run_task_def sleep_period_def
        backgroundTasks_def Minute_def numeral_2_eq_2 doCrawl_def example_env_def
        start_state_def call_def emit_def After_def Add_def zeroTime_def word_sless_alt
        upt_conv_Cons)

theorem disabled_task_never_runs_witness:
  "(0::nat) < length (backgroundTasks example_env 0 1 0)
   \<and> interval (backgroundTasks example_env 0 1 0 ! 0) = 0
   \<and> RunTask 0 \<notin> set (events_since start_state
        (snd (runBackgroundTasks example_env 2 (backgroundTasks example_env 0 1 0) start_state)))
   \<and> RunTask 1 \<in> set (events_since start_state
        (snd (runBackgroundTasks example_env 2 (backgroundTasks example_env 0 1 0) start_state)))"
proof -
  have len: "(0::nat) < length (backgroundTasks example_env 0 1 0)"
    and zero: "interval (backgroundTasks example_env 0 1 0 ! 0) = 0"
    by (simp_all add: backgroundTasks_def)
  have since: "events_since start_state S = trace S" for S :: "nat state"
    by (simp add: events_since_def start_state_def)
  have "RunTask 1 \<in> set (events_since start_state
        (snd (runBackgroundTasks example_env 2 (backgroundTasks example_env 0 1 0) start_state)))"
    by (simp add: since runBackgroundTasks_example)
  then show ?thesis
    using len zero disabled_task_never_runs [OF len zero, of start_state 2] by simp
qed

text \<open>
  C10. \<open>doCrawl\<close> returns nil from every state and with any collaborators; hence in
  any number of passes of the scheduler over the task table the failure line of the
  task named "Crawl" is never logged.
\<close>

theorem doCrawl_never_reports_failure:
  "fst (doCrawl env s) = None
   \<and> Log (LogTask ''Crawl'' e) \<notin> set (events_since s0
        (snd (runBackgroundTasks env n (backgroundTasks env gi ci si) s0)))"
proof -
  have nil: "fst (doCrawl env s) = None" for s :: "'a state"
    using doCrawl_trace_facts [of env s] by auto
  have "Log (LogTask ''Crawl'' e) \<notin> set (events_since s0
          (snd (runBackgroundTasks env n (backgroundTasks env gi ci si) s0)))"
  proof
    assume "Log (LogTask ''Crawl'' e) \<in> set (events_since s0
              (snd (runBackgroundTasks env n (backgroundTasks env gi ci si) s0)))"
    then have "sched_ok (backgroundTasks env gi ci si) (Log (LogTask ''Crawl'' e))"
      using runBackgroundTasks_events [of env gi ci si s0 n] by (auto simp: list_all_iff)
    then show False
      using nil by (auto simp: backgroundTasks_def less_Suc_eq numeral_3_eq_3)
  qed
  with nil show ?thesis by simp
qed

theorem doCrawl_never_reports_failure_witness:
  "fst (doCrawl (refresh_fails_env 0) start_state) = None
   \<and> Log (LogTask ''Crawl'' ''not found'') \<notin> set (events_since start_state
        (snd (runBackgroundTasks (refresh_fails_env 0) 2
                (backgroundTasks (refresh_fails_env 0) 0 1 0) start_state)))"
  using doCrawl_never_reports_failure
          [of "refresh_fails_env 0" start_state "''not found''" start_state 2 0 1 0]
  by simp

end
